theory Spec2Isabelle
  imports Main
begin

section \<open>Data model (src/backend/app.py, lines 93--202)\<close>

text \<open>
  The tables of the application. A table is a map from the primary key to the row
  (users, documents) or the list of its rows in insertion order (ledger, audit).
  Only the columns the handlers below read or write are kept; string columns stay
  strings, compared with the literals the source compares them with.
\<close>

record user =
  role :: string
  subscription_status :: string

record document =
  status :: string
  storage :: string
  s3_key :: "string option"
  file_name :: string

record document_access =
  user_id :: int
  document_id :: int

record download_audit =
  audit_user_id :: "int option"
  audit_document_id :: int
  ip_address :: string
  user_agent :: string

record db =
  users :: "int \<rightharpoonup> user"
  documents :: "int \<rightharpoonup> document"
  accesses :: "document_access list"
  audits :: "download_audit list"

text \<open>The module-level settings (lines 65--86) the handlers read.\<close>

record config =
  FREE_DOC_LIMIT :: int
  stripe :: bool
  STRIPE_SECRET_KEY :: string
  STRIPE_PRICE_ID :: string
  STRIPE_WEBHOOK_SECRET :: string
  SIMULATE_PAYMENTS :: bool
  use_s3 :: bool

text \<open>
  What a download request brings with it and what the outside world answers while it
  is served: the client address and agent written to the audit row, whether the audit
  block (lines 508--519) completes or raises, the answer of the presigning call and
  whether the local file is there.
\<close>

datatype presign_result = Presigned string | BotoFailure | OtherFailure

record world =
  client_ip :: string
  client_ua :: string
  audit_ok :: bool
  presign :: presign_result
  file_present :: bool

text \<open>
  What a handler answers. \<open>Unhandled500\<close> is an exception no handler catches: the
  framework answers 500 and the session is dropped with whatever it had not committed.
\<close>

datatype response =
    Unauthorized401
  | AdminOnly403
  | NotFound404
  | NotAvailable403
  | UpgradeRequired402
  | Gone410
  | CannotGenerate500
  | DownloadUrl string
  | SendFile string
  | Unhandled500
  | CheckoutUrl string
  | StripeError502
  | Simulated string
  | NotConfigured503
  | WebhookError400
  | Received
  | DocumentJson int

section \<open>The download handler (lines 488--551)\<close>

datatype deny_reason = NotAvailable | QuotaExceeded

datatype decision = Allow | Deny deny_reason

text \<open>
  In the handlers below \<open>uid\<close> is the identity of the token, as \<open>_current_user\<close>
  (lines 228--235) looks it up: \<open>users st uid\<close> is the user, \<open>None\<close> when there is none.
\<close>

text \<open>Line 498: the set of document ids in the rows of \<open>user.accesses\<close>.\<close>

definition accessed_docs :: "db \<Rightarrow> int \<Rightarrow> int set" where
  "accessed_docs st uid =
     set (map document_id (filter (\<lambda>a. user_id a = uid) (accesses st)))"

text \<open>
  Lines 494--501: the two early returns of the handler, as the decision they stand for.
  \<open>accessed\<close> is the set read at line 498 and \<open>doc_id\<close> is \<open>doc.id\<close>.
\<close>

definition entitlement :: "config \<Rightarrow> user \<Rightarrow> document \<Rightarrow> int \<Rightarrow> int set \<Rightarrow> decision" where
  "entitlement cfg u doc doc_id accessed =
     (if status doc \<noteq> ''approved'' \<and> role u \<noteq> ''admin'' then Deny NotAvailable
      else if role u \<noteq> ''admin'' \<and> subscription_status u \<noteq> ''paid'' then
        (if doc_id \<notin> accessed \<and> FREE_DOC_LIMIT cfg \<le> int (card accessed)
         then Deny QuotaExceeded else Allow)
      else Allow)"

text \<open>Lines 523--551: where the content is served from.\<close>

definition resolve :: "config \<Rightarrow> world \<Rightarrow> document \<Rightarrow> response" where
  "resolve cfg w doc =
     (if storage doc = ''s3'' \<and> use_s3 cfg \<and> s3_key doc \<noteq> None \<and> s3_key doc \<noteq> Some []
      then (case presign w of
              Presigned url \<Rightarrow> DownloadUrl url
            | BotoFailure \<Rightarrow> Gone410
            | OtherFailure \<Rightarrow> CannotGenerate500)
      else if \<not> file_present w then Gone410
      else SendFile (file_name doc))"

text \<open>
  Lines 491--501, the part of the handler that only reads: the document and the user
  are looked up, the ledger of the user is read, and the request is either answered at
  once or goes on with what was read.
\<close>

definition download_read ::
    "config \<Rightarrow> db \<Rightarrow> int \<Rightarrow> int \<Rightarrow> response + (document \<times> int set)" where
  "download_read cfg st uid doc_id =
     (case documents st doc_id of
        None \<Rightarrow> Inl NotFound404
      | Some doc \<Rightarrow>
          (case users st uid of
             None \<Rightarrow> Inl Unhandled500
           | Some u \<Rightarrow>
               (case entitlement cfg u doc doc_id (accessed_docs st uid) of
                  Deny NotAvailable \<Rightarrow> Inl NotAvailable403
                | Deny QuotaExceeded \<Rightarrow> Inl UpgradeRequired402
                | Allow \<Rightarrow> Inr (doc, accessed_docs st uid))))"

text \<open>
  Lines 503--551, the part that writes, on the store as it is when the writes are
  made. The ledger row is added and committed when the document was not in the set
  read before; the unique constraint of line 169 makes that commit raise when the
  pair is in the table by then. The audit row is added and committed next; when that
  block raises, the rollback of line 521 leaves the store as the ledger commit left it.
\<close>

definition add_access :: "db \<Rightarrow> int \<Rightarrow> int \<Rightarrow> db" where
  "add_access st uid doc_id =
     st\<lparr>accesses := accesses st @ [\<lparr>user_id = uid, document_id = doc_id\<rparr>]\<rparr>"

definition add_audit :: "world \<Rightarrow> db \<Rightarrow> int \<Rightarrow> int \<Rightarrow> db" where
  "add_audit w st uid doc_id =
     st\<lparr>audits := audits st @
          [\<lparr>audit_user_id = Some uid, audit_document_id = doc_id,
            ip_address = client_ip w, user_agent = client_ua w\<rparr>]\<rparr>"

definition download_write ::
    "config \<Rightarrow> world \<Rightarrow> db \<Rightarrow> int \<Rightarrow> int \<Rightarrow> document \<times> int set \<Rightarrow> response \<times> db" where
  "download_write cfg w st uid doc_id snap =
     (let doc = fst snap; accessed = snd snap in
      if doc_id \<notin> accessed \<and>
         (\<exists>a \<in> set (accesses st). user_id a = uid \<and> document_id a = doc_id)
      then (Unhandled500, st)
      else
        let st1 = (if doc_id \<notin> accessed then add_access st uid doc_id else st);
            st2 = (if audit_ok w then add_audit w st1 uid doc_id else st1)
        in (resolve cfg w doc, st2))"

definition finish ::
    "config \<Rightarrow> world \<Rightarrow> db \<Rightarrow> int \<Rightarrow> int \<Rightarrow> response + (document \<times> int set) \<Rightarrow> response \<times> db" where
  "finish cfg w st uid doc_id r =
     (case r of Inl resp \<Rightarrow> (resp, st) | Inr snap \<Rightarrow> download_write cfg w st uid doc_id snap)"

text \<open>The handler serving one request from start to end.\<close>

definition download_doc :: "config \<Rightarrow> world \<Rightarrow> db \<Rightarrow> int \<Rightarrow> int \<Rightarrow> response \<times> db" where
  "download_doc cfg w st uid doc_id =
     finish cfg w st uid doc_id (download_read cfg st uid doc_id)"

text \<open>The request passes both checks of lines 494--501 in the store as it is.\<close>

definition allowed :: "config \<Rightarrow> db \<Rightarrow> int \<Rightarrow> int \<Rightarrow> bool" where
  "allowed cfg st uid doc_id =
     (case documents st doc_id of
        None \<Rightarrow> False
      | Some doc \<Rightarrow>
          (case users st uid of
             None \<Rightarrow> False
           | Some u \<Rightarrow> entitlement cfg u doc doc_id (accessed_docs st uid) = Allow))"

text \<open>The decision a response of the download handler stands for, if one was taken.\<close>

fun decision_of :: "response \<Rightarrow> decision option" where
  "decision_of NotAvailable403 = Some (Deny NotAvailable)"
| "decision_of UpgradeRequired402 = Some (Deny QuotaExceeded)"
| "decision_of Gone410 = Some Allow"
| "decision_of CannotGenerate500 = Some Allow"
| "decision_of (DownloadUrl _) = Some Allow"
| "decision_of (SendFile _) = Some Allow"
| "decision_of _ = None"

text \<open>
  The policy as the specification words it, step by step, to be compared with
  \<open>entitlement\<close>.
\<close>

definition isReadableBy :: "document \<Rightarrow> user \<Rightarrow> bool" where
  "isReadableBy doc u \<longleftrightarrow> status doc = ''approved'' \<or> role u = ''admin''"

definition decide_spec :: "config \<Rightarrow> user \<Rightarrow> document \<Rightarrow> int \<Rightarrow> int set \<Rightarrow> decision" where
  "decide_spec cfg u doc doc_id ledger =
     (if \<not> isReadableBy doc u then Deny NotAvailable
      else if role u = ''admin'' then Allow
      else if subscription_status u = ''paid'' then Allow
      else if doc_id \<in> ledger then Allow
      else if int (card ledger) < FREE_DOC_LIMIT cfg then Allow
      else Deny QuotaExceeded)"

text \<open>
  Two requests of one user served at the same time: both read the store (line 498)
  before either writes (lines 503--519), then the first finishes, then the second.
  Served one after the other, the second reads what the first has written.
\<close>

definition overlapped ::
    "config \<Rightarrow> world \<Rightarrow> world \<Rightarrow> db \<Rightarrow> int \<Rightarrow> int \<Rightarrow> int \<Rightarrow> response \<times> response \<times> db" where
  "overlapped cfg wa wb st uid da db' =
     (let ra = download_read cfg st uid da;
          rb = download_read cfg st uid db';
          fa = finish cfg wa st uid da ra;
          fb = finish cfg wb (snd fa) uid db' rb
      in (fst fa, fst fb, snd fb))"

definition serial ::
    "config \<Rightarrow> world \<Rightarrow> world \<Rightarrow> db \<Rightarrow> int \<Rightarrow> int \<Rightarrow> int \<Rightarrow> response \<times> response \<times> db" where
  "serial cfg wa wb st uid da db' =
     (let fa = download_doc cfg wa st uid da;
          fb = download_doc cfg wb (snd fa) uid db'
      in (fst fa, fst fb, snd fb))"

text \<open>The same pair requested again and again, each time in its own surroundings.\<close>

fun downloads :: "config \<Rightarrow> world list \<Rightarrow> db \<Rightarrow> int \<Rightarrow> int \<Rightarrow> db" where
  "downloads cfg [] st uid doc_id = st"
| "downloads cfg (w # ws) st uid doc_id =
     downloads cfg ws (snd (download_doc cfg w st uid doc_id)) uid doc_id"

section \<open>Moderation (lines 210--221 and 437--452)\<close>

text \<open>
  \<open>admin_required\<close> around the two handlers: no user gives 401, a user who is not an
  admin gives 403, an unknown document gives 404, otherwise the status is set.
\<close>

definition set_status :: "string \<Rightarrow> db \<Rightarrow> int \<Rightarrow> int \<Rightarrow> response \<times> db" where
  "set_status target st uid doc_id =
     (case users st uid of
        None \<Rightarrow> (Unauthorized401, st)
      | Some u \<Rightarrow>
          if role u \<noteq> ''admin'' then (AdminOnly403, st)
          else (case documents st doc_id of
                  None \<Rightarrow> (NotFound404, st)
                | Some doc \<Rightarrow>
                    (DocumentJson doc_id,
                     st\<lparr>documents := (documents st)(doc_id \<mapsto> doc\<lparr>status := target\<rparr>)\<rparr>)))"

definition approve_doc :: "db \<Rightarrow> int \<Rightarrow> int \<Rightarrow> response \<times> db" where
  "approve_doc = set_status ''approved''"

definition reject_doc :: "db \<Rightarrow> int \<Rightarrow> int \<Rightarrow> response \<times> db" where
  "reject_doc = set_status ''rejected''"

section \<open>Billing (lines 602--665)\<close>

text \<open>
  \<open>start_checkout\<close>: with Stripe configured a session is created (\<open>session\<close> is its
  URL, or \<open>None\<close> when anything inside the \<open>try\<close> raises, a missing user included);
  otherwise the simulated path marks the user paid; otherwise 503.
\<close>

definition start_checkout :: "config \<Rightarrow> string option \<Rightarrow> db \<Rightarrow> int \<Rightarrow> response \<times> db" where
  "start_checkout cfg session st uid =
     (if stripe cfg \<and> STRIPE_SECRET_KEY cfg \<noteq> [] \<and> STRIPE_PRICE_ID cfg \<noteq> [] then
        (case users st uid of
           None \<Rightarrow> (StripeError502, st)
         | Some u \<Rightarrow>
             (case session of
                Some url \<Rightarrow> (CheckoutUrl url, st)
              | None \<Rightarrow> (StripeError502, st)))
      else if SIMULATE_PAYMENTS cfg then
        (case users st uid of
           None \<Rightarrow> (Unhandled500, st)
         | Some u \<Rightarrow>
             (Simulated ''paid'',
              st\<lparr>users := (users st)(uid \<mapsto> u\<lparr>subscription_status := ''paid''\<rparr>)\<rparr>))
      else (NotConfigured503, st))"

text \<open>
  Python's \<open>int\<close> on an ASCII string: the blanks around it (space, tab, line feed,
  vertical tab, form feed, carriage return) are dropped, one sign may lead, then
  decimal digits, single underscores allowed between two digits. Anything else raises
  \<open>ValueError\<close>, which is \<open>None\<close> here. The cap that recent interpreters put on the
  number of digits (4300 unless configured) is left out, so the model stands for the
  builtin on strings of at most 4300 characters.
\<close>

definition is_space :: "char \<Rightarrow> bool" where
  "is_space c \<longleftrightarrow> c \<in> set [CHR '' '', CHR 0x09, CHR 0x0A, CHR 0x0B, CHR 0x0C, CHR 0x0D]"

definition digit_val :: "char \<Rightarrow> nat option" where
  "digit_val c = map_of (zip ''0123456789'' [0 ..< 10]) c"

fun py_digits :: "nat \<Rightarrow> string \<Rightarrow> nat option" where
  "py_digits acc [] = None"
| "py_digits acc [c] =
     (case digit_val c of None \<Rightarrow> None | Some v \<Rightarrow> Some (10 * acc + v))"
| "py_digits acc (c # d # ds) =
     (case digit_val c of
        None \<Rightarrow> None
      | Some v \<Rightarrow>
          if d = CHR ''_'' then py_digits (10 * acc + v) ds
          else py_digits (10 * acc + v) (d # ds))"

definition strip :: "string \<Rightarrow> string" where
  "strip s = rev (dropWhile is_space (rev (dropWhile is_space s)))"

definition py_int :: "string \<Rightarrow> int option" where
  "py_int s =
     (case strip s of
        [] \<Rightarrow> None
      | c # cs \<Rightarrow>
          if c = CHR ''-'' then map_option (\<lambda>n. - int n) (py_digits 0 cs)
          else if c = CHR ''+'' then map_option int (py_digits 0 cs)
          else map_option int (py_digits 0 (c # cs)))"

text \<open>
  Python's \<open>str\<close> on an integer, which is how the identity that \<open>start_checkout\<close>
  attaches at line 620 (\<open>metadata={"user_id": user.id}\<close>) comes back in an event.
\<close>

definition digit_char :: "nat \<Rightarrow> char" where
  "digit_char d = ''0123456789'' ! d"

fun dec :: "nat \<Rightarrow> string" where
  "dec n = (if n < 10 then [digit_char n] else dec (n div 10) @ [digit_char (n mod 10)])"

declare dec.simps [simp del]

definition py_str :: "int \<Rightarrow> string" where
  "py_str i = (if i < 0 then CHR ''-'' # dec (nat (- i)) else dec (nat i))"

text \<open>
  A payment event as the handler reads it: its type and the metadata of its object.
  \<open>session.get("metadata", {})\<close> gives the empty dictionary when the key is absent and
  \<open>None\<close> when the key is there with a null value; in a dictionary the \<open>user_id\<close>
  entry is a string, as metadata values are, or is not there.
\<close>

datatype metadata = MetadataAbsent | MetadataNull | Metadata "string option"

record event =
  ev_type :: string
  ev_metadata :: metadata

text \<open>
  The integers the store can take as a key: with the default SQLite store of line 40 the
  driver refuses to bind any other and \<open>User.query.get\<close> raises \<open>OverflowError\<close>.
\<close>

definition in_db_range :: "int \<Rightarrow> bool" where
  "in_db_range n \<longleftrightarrow> - (2 ^ 63) \<le> n \<and> n < 2 ^ 63"

text \<open>
  Lines 650--655 and 658--663, the same code with \<open>paid\<close> and \<open>free\<close>. Null metadata
  makes \<open>.get("user_id")\<close> raise \<open>AttributeError\<close>; a missing or empty reference and a
  reference to no user change nothing; \<open>int\<close> raising and the lookup raising go up to
  the framework uncaught.
\<close>

definition reconcile :: "string \<Rightarrow> db \<Rightarrow> event \<Rightarrow> response \<times> db" where
  "reconcile target st e =
     (case ev_metadata e of
        MetadataNull \<Rightarrow> (Unhandled500, st)
      | MetadataAbsent \<Rightarrow> (Received, st)
      | Metadata None \<Rightarrow> (Received, st)
      | Metadata (Some ref) \<Rightarrow>
          if ref = [] then (Received, st)
          else (case py_int ref of
                  None \<Rightarrow> (Unhandled500, st)
                | Some n \<Rightarrow>
                    if \<not> in_db_range n then (Unhandled500, st)
                    else (case users st n of
                            None \<Rightarrow> (Received, st)
                          | Some u \<Rightarrow>
                              (Received,
                               st\<lparr>users := (users st)(n \<mapsto> u\<lparr>subscription_status := target\<rparr>)\<rparr>))))"

text \<open>
  \<open>billing_webhook\<close>: \<open>ev\<close> is the event \<open>construct_event\<close> returns for the signed
  payload, \<open>None\<close> when it raises.
\<close>

definition billing_webhook :: "config \<Rightarrow> db \<Rightarrow> event option \<Rightarrow> response \<times> db" where
  "billing_webhook cfg st ev =
     (if \<not> stripe cfg \<or> STRIPE_WEBHOOK_SECRET cfg = [] then (NotConfigured503, st)
      else (case ev of
              None \<Rightarrow> (WebhookError400, st)
            | Some e \<Rightarrow>
                if ev_type e = ''checkout.session.completed'' then reconcile ''paid'' st e
                else if ev_type e = ''customer.subscription.deleted'' then reconcile ''free'' st e
                else (Received, st)))"

definition completed :: "string \<Rightarrow> event option" where
  "completed ref =
     Some \<lparr>ev_type = ''checkout.session.completed'', ev_metadata = Metadata (Some ref)\<rparr>"

definition canceled :: "string \<Rightarrow> event option" where
  "canceled ref =
     Some \<lparr>ev_type = ''customer.subscription.deleted'', ev_metadata = Metadata (Some ref)\<rparr>"

text \<open>The webhook is configured (line 637 lets the request through).\<close>

definition webhook_on :: "config \<Rightarrow> bool" where
  "webhook_on cfg \<longleftrightarrow> stripe cfg \<and> STRIPE_WEBHOOK_SECRET cfg \<noteq> []"

text \<open>The subscription status of a user in the store, if the user is there.\<close>

definition sub_of :: "db \<Rightarrow> int \<Rightarrow> string option" where
  "sub_of st uid = map_option subscription_status (users st uid)"

fun deliver :: "config \<Rightarrow> event option list \<Rightarrow> db \<Rightarrow> db" where
  "deliver cfg [] st = st"
| "deliver cfg (e # es) st = deliver cfg es (snd (billing_webhook cfg st e))"

section \<open>Runs of the system\<close>

datatype op =
    Download world int int
  | Checkout "string option" int
  | Webhook "event option"
  | Approve int int
  | Reject int int

fun step :: "config \<Rightarrow> op \<Rightarrow> db \<Rightarrow> db" where
  "step cfg (Download w uid doc_id) st = snd (download_doc cfg w st uid doc_id)"
| "step cfg (Checkout session uid) st = snd (start_checkout cfg session st uid)"
| "step cfg (Webhook ev) st = snd (billing_webhook cfg st ev)"
| "step cfg (Approve uid doc_id) st = snd (approve_doc st uid doc_id)"
| "step cfg (Reject uid doc_id) st = snd (reject_doc st uid doc_id)"

fun run :: "config \<Rightarrow> op list \<Rightarrow> db \<Rightarrow> db" where
  "run cfg [] st = st"
| "run cfg (x # xs) st = run cfg xs (step cfg x st)"

text \<open>The number of distinct documents in the ledger of a user.\<close>

definition quota_used :: "db \<Rightarrow> int \<Rightarrow> int" where
  "quota_used st uid = int (card (accessed_docs st uid))"

definition free_non_admin :: "db \<Rightarrow> int \<Rightarrow> bool" where
  "free_non_admin st uid =
     (case users st uid of
        None \<Rightarrow> False
      | Some u \<Rightarrow> role u \<noteq> ''admin'' \<and> subscription_status u = ''free'')"

text \<open>The user is a free non-admin user in every state the run goes through.\<close>

fun stays_free :: "config \<Rightarrow> int \<Rightarrow> op list \<Rightarrow> db \<Rightarrow> bool" where
  "stays_free cfg uid [] st = free_non_admin st uid"
| "stays_free cfg uid (x # xs) st =
     (free_non_admin st uid \<and> stays_free cfg uid xs (step cfg x st))"

section \<open>A reference deployment\<close>

text \<open>
  The defaults of the source with the limit at 2, Stripe and its webhook configured,
  two users (1 an ordinary free user, 9 an admin), and four documents, the fourth
  still pending.
\<close>

definition cfg0 :: config where
  "cfg0 = \<lparr>FREE_DOC_LIMIT = 2, stripe = True, STRIPE_SECRET_KEY = ''sk'',
           STRIPE_PRICE_ID = ''price'', STRIPE_WEBHOOK_SECRET = ''whsec'',
           SIMULATE_PAYMENTS = True, use_s3 = False\<rparr>"

definition w0 :: world where
  "w0 = \<lparr>client_ip = ''10.0.0.1'', client_ua = ''curl'', audit_ok = True,
         presign = BotoFailure, file_present = True\<rparr>"

definition doc0 :: "string \<Rightarrow> string \<Rightarrow> document" where
  "doc0 st name = \<lparr>status = st, storage = ''local'', s3_key = None, file_name = name\<rparr>"

definition alice :: user where
  "alice = \<lparr>role = ''user'', subscription_status = ''free''\<rparr>"

definition root_user :: user where
  "root_user = \<lparr>role = ''admin'', subscription_status = ''free''\<rparr>"

definition st0 :: db where
  "st0 = \<lparr>users = [1 \<mapsto> alice, 9 \<mapsto> root_user],
          documents = [1 \<mapsto> doc0 ''approved'' ''a.pdf'', 2 \<mapsto> doc0 ''approved'' ''b.pdf'',
                       3 \<mapsto> doc0 ''approved'' ''c.pdf'', 4 \<mapsto> doc0 ''pending'' ''d.pdf''],
          accesses = [], audits = []\<rparr>"

definition ledger :: "(int \<times> int) list \<Rightarrow> document_access list" where
  "ledger ps = map (\<lambda>p. \<lparr>user_id = fst p, document_id = snd p\<rparr>) ps"

text \<open>
  A run in which user 1 pays, downloads three documents and cancels; and the store in
  which user 1 has one of the two free documents left.
\<close>

definition upgrade_then_cancel :: "op list" where
  "upgrade_then_cancel =
     [Webhook (completed ''1''), Download w0 1 1, Download w0 1 2, Download w0 1 3,
      Webhook (canceled ''1'')]"

definition one_slot_left :: db where
  "one_slot_left = st0\<lparr>accesses := ledger [(1, 1)]\<rparr>"

section \<open>The entitlement policy\<close>

lemma resolve_decision: "decision_of (resolve cfg w doc) = Some Allow"
  by (simp add: resolve_def split: presign_result.split)

lemma fresh_snapshot_no_conflict:
  "doc_id \<notin> accessed_docs st uid \<Longrightarrow>
   \<not> (\<exists>a \<in> set (accesses st). user_id a = uid \<and> document_id a = doc_id)"
  by (auto simp: accessed_docs_def)

text \<open>
  C1. For every user and every document the handler decides by the ordered policy of
  the specification: not readable gives Deny(NotAvailable), then admin, paid, an
  existing ledger entry and a ledger count below the limit each give Allow, and
  anything else gives Deny(QuotaExceeded). The response of the handler carries that
  decision.
\<close>

theorem C1_entitlement_policy:
  "entitlement cfg u doc doc_id (accessed_docs st uid)
     = decide_spec cfg u doc doc_id (accessed_docs st uid)
   \<and> (documents st doc_id = Some doc \<and> users st uid = Some u \<longrightarrow>
        decision_of (fst (download_doc cfg w st uid doc_id))
          = Some (decide_spec cfg u doc doc_id (accessed_docs st uid)))"
proof -
  have eq: "entitlement cfg u doc doc_id A = decide_spec cfg u doc doc_id A" for A
    by (auto simp: entitlement_def decide_spec_def isReadableBy_def)
  have "decision_of (fst (download_doc cfg w st uid doc_id))
          = Some (entitlement cfg u doc doc_id (accessed_docs st uid))"
    if "documents st doc_id = Some doc" "users st uid = Some u"
  proof (cases "entitlement cfg u doc doc_id (accessed_docs st uid)")
    case Allow
    with that fresh_snapshot_no_conflict [of doc_id st uid] show ?thesis
      by (auto simp: download_doc_def download_read_def finish_def download_write_def
            Let_def resolve_decision)
  next
    case (Deny r)
    with that show ?thesis
      by (cases r) (simp_all add: download_doc_def download_read_def finish_def)
  qed
  with eq show ?thesis by simp
qed

theorem C1_entitlement_policy_witness:
  "documents st0 3 = Some (doc0 ''approved'' ''c.pdf'') \<and> users st0 1 = Some alice
   \<and> decision_of (fst (download_doc cfg0 w0 (st0\<lparr>accesses := ledger [(1, 1), (1, 2)]\<rparr>) 1 3))
       = Some (Deny QuotaExceeded)
   \<and> decision_of (fst (download_doc cfg0 w0 (st0\<lparr>accesses := ledger [(1, 1)]\<rparr>) 1 3))
       = Some Allow"
  using C1_entitlement_policy [of cfg0 alice "doc0 ''approved'' ''c.pdf''" 3
          "st0\<lparr>accesses := ledger [(1, 1), (1, 2)]\<rparr>" 1 w0]
        C1_entitlement_policy [of cfg0 alice "doc0 ''approved'' ''c.pdf''" 3
          "st0\<lparr>accesses := ledger [(1, 1)]\<rparr>" 1 w0]
  by (simp add: st0_def cfg0_def alice_def doc0_def ledger_def decide_spec_def
        isReadableBy_def accessed_docs_def)

section \<open>What a download does to the store\<close>

lemma download_denied:
  "\<not> allowed cfg st uid doc_id \<Longrightarrow> snd (download_doc cfg w st uid doc_id) = st"
  by (auto simp: allowed_def download_doc_def download_read_def finish_def
        split: option.splits decision.splits deny_reason.splits)

lemma download_allowed:
  "allowed cfg st uid doc_id \<Longrightarrow> documents st doc_id = Some doc \<Longrightarrow>
   download_doc cfg w st uid doc_id =
     (resolve cfg w doc,
      let st1 = (if doc_id \<notin> accessed_docs st uid then add_access st uid doc_id else st)
      in if audit_ok w then add_audit w st1 uid doc_id else st1)"
  using fresh_snapshot_no_conflict [of doc_id st uid]
  by (auto simp: allowed_def download_doc_def download_read_def finish_def download_write_def
        Let_def split: option.splits)

lemma allowed_iff_decision:
  "allowed cfg st uid doc_id \<longleftrightarrow> decision_of (fst (download_doc cfg w st uid doc_id)) = Some Allow"
proof (cases "allowed cfg st uid doc_id")
  case True
  then obtain doc where "documents st doc_id = Some doc"
    by (auto simp: allowed_def split: option.splits)
  with True show ?thesis by (simp add: download_allowed resolve_decision)
next
  case False
  then show ?thesis
    by (auto simp: allowed_def download_doc_def download_read_def finish_def
        split: option.splits decision.splits deny_reason.splits)
qed

lemma allowed_doc: "allowed cfg st uid doc_id \<Longrightarrow> \<exists>doc. documents st doc_id = Some doc"
  by (auto simp: allowed_def split: option.splits)

lemma add_access_simps [simp]:
  "users (add_access st uid d) = users st"
  "documents (add_access st uid d) = documents st"
  "audits (add_access st uid d) = audits st"
  "accesses (add_access st uid d) = accesses st @ [\<lparr>user_id = uid, document_id = d\<rparr>]"
  by (simp_all add: add_access_def)

lemma add_audit_simps [simp]:
  "users (add_audit w st uid d) = users st"
  "documents (add_audit w st uid d) = documents st"
  "accesses (add_audit w st uid d) = accesses st"
  by (simp_all add: add_audit_def)

lemma accessed_docs_add_access:
  "accessed_docs (add_access st uid d) v = (if v = uid then insert d (accessed_docs st v) else accessed_docs st v)"
  by (auto simp: accessed_docs_def)

lemma accessed_docs_cong:
  "accesses st' = accesses st \<Longrightarrow> accessed_docs st' uid = accessed_docs st uid"
  by (simp add: accessed_docs_def)

lemma download_users [simp]: "users (snd (download_doc cfg w st uid d)) = users st"
proof (cases "allowed cfg st uid d")
  case True
  then show ?thesis using allowed_doc [OF True] by (auto simp: download_allowed Let_def)
next
  case False
  then show ?thesis by (simp add: download_denied)
qed

lemma download_documents [simp]: "documents (snd (download_doc cfg w st uid d)) = documents st"
proof (cases "allowed cfg st uid d")
  case True
  then show ?thesis using allowed_doc [OF True] by (auto simp: download_allowed Let_def)
next
  case False
  then show ?thesis by (simp add: download_denied)
qed

lemma download_accesses:
  "accesses (snd (download_doc cfg w st uid d)) =
     (if allowed cfg st uid d \<and> d \<notin> accessed_docs st uid
      then accesses st @ [\<lparr>user_id = uid, document_id = d\<rparr>] else accesses st)"
proof (cases "allowed cfg st uid d")
  case True
  then show ?thesis using allowed_doc [OF True] by (auto simp: download_allowed Let_def)
next
  case False
  then show ?thesis by (simp add: download_denied)
qed

lemma accessed_docs_append:
  "accesses st' = accesses st @ [\<lparr>user_id = uid, document_id = d\<rparr>] \<Longrightarrow>
   accessed_docs st' v = (if v = uid then insert d (accessed_docs st v) else accessed_docs st v)"
  by (simp add: accessed_docs_def)

lemma download_accessed_docs:
  "accessed_docs (snd (download_doc cfg w st uid d)) v =
     (if allowed cfg st uid d \<and> v = uid then insert d (accessed_docs st v) else accessed_docs st v)"
proof (cases "allowed cfg st uid d \<and> d \<notin> accessed_docs st uid")
  case True
  then have "accesses (snd (download_doc cfg w st uid d))
               = accesses st @ [\<lparr>user_id = uid, document_id = d\<rparr>]"
    by (simp add: download_accesses)
  from accessed_docs_append [OF this] True show ?thesis by simp
next
  case False
  then have "accesses (snd (download_doc cfg w st uid d)) = accesses st"
    by (auto simp: download_accesses)
  from accessed_docs_cong [OF this] False show ?thesis by (auto simp: insert_absorb)
qed

lemma admin_allowed:
  "users st uid = Some u \<Longrightarrow> role u = ''admin'' \<Longrightarrow> documents st doc_id = Some doc \<Longrightarrow>
   allowed cfg st uid doc_id"
  by (simp add: allowed_def entitlement_def)


section \<open>Denied and allowed downloads\<close>

text \<open>
  C10. A denied download changes nothing: when the handler answers Deny(NotAvailable)
  or Deny(QuotaExceeded), the store it leaves is the store it found, with no ledger row
  and no audit row added.
\<close>

theorem C10_deny_changes_nothing:
  "decision_of (fst (download_doc cfg w st uid doc_id)) = Some (Deny r) \<Longrightarrow>
   snd (download_doc cfg w st uid doc_id) = st"
proof -
  assume d: "decision_of (fst (download_doc cfg w st uid doc_id)) = Some (Deny r)"
  have "\<not> allowed cfg st uid doc_id"
    using d allowed_iff_decision [of cfg st uid doc_id w] by simp
  then show ?thesis by (rule download_denied)
qed

theorem C10_deny_changes_nothing_witness:
  "decision_of (fst (download_doc cfg0 w0 st0 1 4)) = Some (Deny NotAvailable)
   \<and> snd (download_doc cfg0 w0 st0 1 4) = st0"
proof -
  have d: "decision_of (fst (download_doc cfg0 w0 st0 1 4)) = Some (Deny NotAvailable)"
    by (simp add: download_doc_def download_read_def finish_def entitlement_def
          st0_def alice_def doc0_def)
  from d C10_deny_changes_nothing [OF d] show ?thesis by simp
qed

text \<open>
  C9. Every allowed download leaves a ledger row for the pair: the row is appended when
  the user had none for the document, whatever the role or the subscription of the
  user. An admin is allowed any document, pending and rejected ones too, and gets the
  row as well.
\<close>

theorem C9_allowed_download_records:
  "(decision_of (fst (download_doc cfg w st uid doc_id)) = Some Allow \<longrightarrow>
      accesses (snd (download_doc cfg w st uid doc_id)) =
        (if doc_id \<in> accessed_docs st uid then accesses st
         else accesses st @ [\<lparr>user_id = uid, document_id = doc_id\<rparr>]))
   \<and> (users st uid = Some u \<and> role u = ''admin'' \<and> documents st doc_id = Some doc \<longrightarrow>
        decision_of (fst (download_doc cfg w st uid doc_id)) = Some Allow
        \<and> doc_id \<in> accessed_docs (snd (download_doc cfg w st uid doc_id)) uid)"
proof (intro conjI impI)
  assume "decision_of (fst (download_doc cfg w st uid doc_id)) = Some Allow"
  then show "accesses (snd (download_doc cfg w st uid doc_id)) =
        (if doc_id \<in> accessed_docs st uid then accesses st
         else accesses st @ [\<lparr>user_id = uid, document_id = doc_id\<rparr>])"
    using allowed_iff_decision [of cfg st uid doc_id w] by (simp add: download_accesses)
next
  assume a: "users st uid = Some u \<and> role u = ''admin'' \<and> documents st doc_id = Some doc"
  then have al: "allowed cfg st uid doc_id" by (simp add: admin_allowed)
  then show "decision_of (fst (download_doc cfg w st uid doc_id)) = Some Allow"
    using allowed_iff_decision [of cfg st uid doc_id w] by simp
  from al show "doc_id \<in> accessed_docs (snd (download_doc cfg w st uid doc_id)) uid"
    by (simp add: download_accessed_docs)
qed

theorem C9_allowed_download_records_witness:
  "users st0 9 = Some root_user \<and> role root_user = ''admin''
   \<and> documents st0 4 = Some (doc0 ''pending'' ''d.pdf'')
   \<and> decision_of (fst (download_doc cfg0 w0 st0 9 4)) = Some Allow
   \<and> accesses (snd (download_doc cfg0 w0 st0 9 4)) = [\<lparr>user_id = 9, document_id = 4\<rparr>]"
  using C9_allowed_download_records [of cfg0 w0 st0 9 4 root_user "doc0 ''pending'' ''d.pdf''"]
  by (simp add: st0_def root_user_def accessed_docs_def)

lemma resolve_audit [simp]: "resolve cfg (w\<lparr>audit_ok := b\<rparr>) doc = resolve cfg w doc"
  by (auto simp: resolve_def)

lemma denied_read:
  "\<not> allowed cfg st uid d \<Longrightarrow>
   \<exists>resp. download_read cfg st uid d = Inl resp \<and> decision_of resp \<noteq> Some Allow"
  by (auto simp: allowed_def download_read_def
        split: option.splits decision.splits deny_reason.splits)

lemma download_denied_full:
  "\<not> allowed cfg st uid d \<Longrightarrow>
   \<exists>resp. decision_of resp \<noteq> Some Allow \<and> (\<forall>w. download_doc cfg w st uid d = (resp, st))"
  using denied_read [of cfg st uid d] by (auto simp: download_doc_def finish_def)

lemma add_audit_audit_ok [simp]: "add_audit (w\<lparr>audit_ok := b\<rparr>) st uid d = add_audit w st uid d"
  by (simp add: add_audit_def)

lemma allowed_cong:
  "users st' = users st \<Longrightarrow> documents st' = documents st \<Longrightarrow> accesses st' = accesses st \<Longrightarrow>
   allowed cfg st' uid d = allowed cfg st uid d"
  by (simp add: allowed_def accessed_docs_def cong: option.case_cong)

lemma downloads_settled:
  "d \<in> accessed_docs st uid \<or> \<not> allowed cfg st uid d \<Longrightarrow>
   accesses (downloads cfg ws st uid d) = accesses st"
proof (induction ws arbitrary: st)
  case Nil
  then show ?case by simp
next
  case (Cons w ws)
  let ?st' = "snd (download_doc cfg w st uid d)"
  from Cons.prems have same: "accesses ?st' = accesses st"
    by (auto simp: download_accesses)
  have "allowed cfg ?st' uid d = allowed cfg st uid d"
    by (rule allowed_cong) (simp_all add: same)
  with Cons.prems accessed_docs_cong [OF same, of uid]
  have "d \<in> accessed_docs ?st' uid \<or> \<not> allowed cfg ?st' uid d"
    by simp
  from Cons.IH [OF this] same show ?case by simp
qed

lemmas run_defs =
  download_doc_def download_read_def finish_def download_write_def entitlement_def
  accessed_docs_def add_access_def add_audit_def resolve_def ledger_def
  st0_def cfg0_def w0_def alice_def root_user_def doc0_def

section \<open>Audit failures\<close>

text \<open>
  C7. The audit row is written after the ledger row and its failure is absorbed. With
  the audit block failing, the response is the one given when it succeeds and no audit
  row is added; on an allowed download the ledger row is there all the same, and the
  store after a successful audit is the store after the ledger write with the audit
  row appended.
\<close>

theorem C7_audit_failure_absorbed:
  "fst (download_doc cfg (w\<lparr>audit_ok := False\<rparr>) st uid doc_id)
     = fst (download_doc cfg (w\<lparr>audit_ok := True\<rparr>) st uid doc_id)
   \<and> audits (snd (download_doc cfg (w\<lparr>audit_ok := False\<rparr>) st uid doc_id)) = audits st
   \<and> (decision_of (fst (download_doc cfg (w\<lparr>audit_ok := True\<rparr>) st uid doc_id)) = Some Allow \<longrightarrow>
        snd (download_doc cfg (w\<lparr>audit_ok := True\<rparr>) st uid doc_id)
          = add_audit w (snd (download_doc cfg (w\<lparr>audit_ok := False\<rparr>) st uid doc_id)) uid doc_id
        \<and> accesses (snd (download_doc cfg (w\<lparr>audit_ok := False\<rparr>) st uid doc_id))
          = (if doc_id \<in> accessed_docs st uid then accesses st
             else accesses st @ [\<lparr>user_id = uid, document_id = doc_id\<rparr>]))"
proof (cases "allowed cfg st uid doc_id")
  case True
  then obtain doc where doc: "documents st doc_id = Some doc"
    by (auto simp: allowed_def split: option.splits)
  show ?thesis
    by (simp add: download_allowed [OF True doc] Let_def)
next
  case False
  from download_denied_full [OF False] obtain resp where
    "decision_of resp \<noteq> Some Allow" "\<And>w. download_doc cfg w st uid doc_id = (resp, st)"
    by blast
  then show ?thesis by simp
qed


theorem C7_audit_failure_absorbed_witness:
  "fst (download_doc cfg0 (w0\<lparr>audit_ok := False\<rparr>) st0 1 1) = SendFile ''a.pdf''
   \<and> fst (download_doc cfg0 (w0\<lparr>audit_ok := True\<rparr>) st0 1 1) = SendFile ''a.pdf''
   \<and> snd (download_doc cfg0 (w0\<lparr>audit_ok := False\<rparr>) st0 1 1)
       = st0\<lparr>accesses := ledger [(1, 1)]\<rparr>
   \<and> snd (download_doc cfg0 (w0\<lparr>audit_ok := True\<rparr>) st0 1 1)
       = add_audit w0 (st0\<lparr>accesses := ledger [(1, 1)]\<rparr>) 1 1"
proof -
  have f: "download_doc cfg0 (w0\<lparr>audit_ok := False\<rparr>) st0 1 1
             = (SendFile ''a.pdf'', st0\<lparr>accesses := ledger [(1, 1)]\<rparr>)"
    by (simp add: run_defs)
  note t = C7_audit_failure_absorbed [of cfg0 w0 st0 1 1]
  from t f have r: "fst (download_doc cfg0 (w0\<lparr>audit_ok := True\<rparr>) st0 1 1) = SendFile ''a.pdf''"
    by simp
  with t f have "snd (download_doc cfg0 (w0\<lparr>audit_ok := True\<rparr>) st0 1 1)
                   = add_audit w0 (st0\<lparr>accesses := ledger [(1, 1)]\<rparr>) 1 1"
    by simp
  with r f show ?thesis by simp
qed

section \<open>Repeated access\<close>

text \<open>
  C4. Requesting the same pair of user and document any number N of times, N at least
  1, leaves the ledger as the first request left it: the later requests add no row, so
  the number of rows is the one after the first grant.
\<close>

theorem C4_repeat_access_idempotent:
  "accesses (downloads cfg (w # ws) st uid doc_id) = accesses (snd (download_doc cfg w st uid doc_id))
   \<and> length (accesses (downloads cfg (w # ws) st uid doc_id))
       = length (accesses (snd (download_doc cfg w st uid doc_id)))"
proof -
  let ?st' = "snd (download_doc cfg w st uid doc_id)"
  have "doc_id \<in> accessed_docs ?st' uid \<or> \<not> allowed cfg ?st' uid doc_id"
  proof (cases "allowed cfg st uid doc_id")
    case True
    then show ?thesis by (simp add: download_accessed_docs)
  next
    case False
    then show ?thesis by (simp add: download_denied)
  qed
  from downloads_settled [OF this] show ?thesis by simp
qed

theorem C4_repeat_access_idempotent_witness:
  "accesses (downloads cfg0 [w0, w0, w0] st0 1 1) = ledger [(1, 1)]
   \<and> length (accesses (downloads cfg0 [w0, w0, w0] st0 1 1)) = 1"
proof -
  have f: "accesses (snd (download_doc cfg0 w0 st0 1 1)) = ledger [(1, 1)]"
    by (simp add: run_defs)
  from C4_repeat_access_idempotent [of cfg0 w0 "[w0, w0]" st0 1 1] f show ?thesis
    by (simp add: ledger_def)
qed

section \<open>Payment events\<close>

lemma digit_val_char: "d < 10 \<Longrightarrow> digit_val (digit_char d) = Some d"
proof -
  assume "d < 10"
  then have "d \<in> {0, 1, 2, 3, 4, 5, 6, 7, 8, 9}" by auto
  then show ?thesis
    by (auto simp: digit_val_def digit_char_def upt_rec)
qed

lemma space_not_digit: "is_space c \<Longrightarrow> digit_val c = None"
  by (auto simp: is_space_def digit_val_def)

lemma sign_not_digit:
  "digit_val (CHR ''-'') = None" "digit_val (CHR ''+'') = None" "digit_val (CHR ''_'') = None"
  by (simp_all add: digit_val_def)

lemma dec_nonempty: "dec n \<noteq> []"
  by (subst dec.simps) simp

lemma dec_digits: "c \<in> set (dec n) \<Longrightarrow> digit_val c \<noteq> None"
proof (induction n rule: dec.induct)
  case (1 n)
  show ?case
  proof (cases "n < 10")
    case True
    with "1.prems" show ?thesis
      by (subst (asm) dec.simps) (simp add: digit_val_char)
  next
    case False
    with "1.prems" have "c \<in> set (dec (n div 10)) \<or> c = digit_char (n mod 10)"
      by (subst (asm) dec.simps) auto
    with False "1.IH" show ?thesis
      by (auto simp: digit_val_char)
  qed
qed

lemma py_digits_snoc:
  "xs \<noteq> [] \<Longrightarrow> \<forall>x \<in> set xs. digit_val x \<noteq> None \<Longrightarrow> digit_val c = Some v \<Longrightarrow>
   py_digits acc (xs @ [c]) = map_option (\<lambda>r. 10 * r + v) (py_digits acc xs)"
proof (induction acc xs rule: py_digits.induct)
  case (1 acc)
  then show ?case by simp
next
  case (2 acc x)
  then obtain vx where "digit_val x = Some vx" by auto
  with 2 sign_not_digit(3) show ?case by auto
next
  case (3 acc x d ds)
  then obtain vx vd where vx: "digit_val x = Some vx" and vd: "digit_val d = Some vd" by auto
  from vd sign_not_digit(3) have nd: "d \<noteq> CHR ''_''" by auto
  from "3.prems" have "\<forall>x \<in> set (d # ds). digit_val x \<noteq> None" by simp
  from "3.IH"(2) [OF vx nd _ this "3.prems"(3)] vx nd show ?case by simp
qed

lemma py_digits_dec: "py_digits 0 (dec n) = Some n"
proof (induction n rule: dec.induct)
  case (1 n)
  show ?case
  proof (cases "n < 10")
    case True
    then show ?thesis by (subst dec.simps) (simp add: digit_val_char)
  next
    case False
    have d: "digit_val (digit_char (n mod 10)) = Some (n mod 10)"
      by (simp add: digit_val_char)
    from dec_digits have all: "\<forall>x \<in> set (dec (n div 10)). digit_val x \<noteq> None" by blast
    have "py_digits 0 (dec (n div 10) @ [digit_char (n mod 10)])
            = map_option (\<lambda>r. 10 * r + n mod 10) (py_digits 0 (dec (n div 10)))"
      by (rule py_digits_snoc [OF dec_nonempty all d])
    with False "1.IH" show ?thesis
      by (subst dec.simps) simp
  qed
qed

lemma strip_self:
  "xs \<noteq> [] \<Longrightarrow> \<not> is_space (hd xs) \<Longrightarrow> \<not> is_space (last xs) \<Longrightarrow> strip xs = xs"
proof -
  assume ne: "xs \<noteq> []" and h: "\<not> is_space (hd xs)" and l: "\<not> is_space (last xs)"
  from h have a: "dropWhile is_space xs = xs"
    by (simp add: dropWhile_eq_self_iff)
  from ne l have "\<not> is_space (hd (rev xs))" by (simp add: hd_rev)
  then have b: "dropWhile is_space (rev xs) = rev xs"
    by (simp add: dropWhile_eq_self_iff)
  show ?thesis by (simp add: strip_def a b)
qed

lemma dec_ends:
  "digit_val (hd (dec n)) \<noteq> None" "digit_val (last (dec n)) \<noteq> None"
  using dec_digits [of "hd (dec n)" n] dec_digits [of "last (dec n)" n] dec_nonempty [of n]
  by simp_all

lemma py_int_py_str: "py_int (py_str i) = Some i"
proof (cases "i < 0")
  case False
  let ?d = "dec (nat i)"
  from dec_ends [of "nat i"] space_not_digit have "\<not> is_space (hd ?d)" "\<not> is_space (last ?d)"
    by auto
  then have s: "strip ?d = ?d" by (simp add: strip_self dec_nonempty)
  obtain c cs where cs: "?d = c # cs" using dec_nonempty [of "nat i"] by (cases ?d) auto
  with dec_ends(1) [of "nat i"] sign_not_digit have "c \<noteq> CHR ''-''" "c \<noteq> CHR ''+''" by auto
  with False s cs py_digits_dec [of "nat i"] show ?thesis
    by (simp add: py_int_def py_str_def)
next
  case True
  let ?d = "dec (nat (- i))"
  let ?s = "CHR ''-'' # ?d"
  from dec_ends(2) [of "nat (- i)"] space_not_digit have "\<not> is_space (last ?d)" by auto
  then have "\<not> is_space (last ?s)" by (simp add: dec_nonempty)
  moreover have "\<not> is_space (hd ?s)" by (simp add: is_space_def)
  ultimately have s: "strip ?s = ?s" by (simp add: strip_self)
  with True py_digits_dec [of "nat (- i)"] show ?thesis
    by (simp add: py_int_def py_str_def)
qed

lemma py_str_nonempty: "py_str i \<noteq> []"
  by (simp add: py_str_def dec_nonempty)

lemma py_int_nonempty: "py_int ref = Some n \<Longrightarrow> ref \<noteq> []"
  by (auto simp: py_int_def strip_def)

lemma webhook_completed:
  "webhook_on cfg \<Longrightarrow> py_int ref = Some uid \<Longrightarrow> in_db_range uid \<Longrightarrow> users st uid = Some u \<Longrightarrow>
   billing_webhook cfg st (completed ref)
     = (Received, st\<lparr>users := (users st)(uid \<mapsto> u\<lparr>subscription_status := ''paid''\<rparr>)\<rparr>)"
  using py_int_nonempty [of ref uid]
  by (simp add: webhook_on_def billing_webhook_def completed_def reconcile_def)

lemma webhook_canceled:
  "webhook_on cfg \<Longrightarrow> py_int ref = Some uid \<Longrightarrow> in_db_range uid \<Longrightarrow> users st uid = Some u \<Longrightarrow>
   billing_webhook cfg st (canceled ref)
     = (Received, st\<lparr>users := (users st)(uid \<mapsto> u\<lparr>subscription_status := ''free''\<rparr>)\<rparr>)"
  using py_int_nonempty [of ref uid]
  by (simp add: webhook_on_def billing_webhook_def canceled_def reconcile_def)

lemma deliver_completed:
  "webhook_on cfg \<Longrightarrow> py_int ref = Some uid \<Longrightarrow> in_db_range uid \<Longrightarrow> users st uid \<noteq> None \<Longrightarrow>
   users (deliver cfg (replicate n (completed ref)) st) uid \<noteq> None
   \<and> (0 < n \<longrightarrow> sub_of (deliver cfg (replicate n (completed ref)) st) uid = Some ''paid'')"
proof (induction n arbitrary: st)
  case 0
  then show ?case by simp
next
  case (Suc n)
  from Suc.prems obtain u where u: "users st uid = Some u" by auto
  let ?st' = "st\<lparr>users := (users st)(uid \<mapsto> u\<lparr>subscription_status := ''paid''\<rparr>)\<rparr>"
  have step: "billing_webhook cfg st (completed ref) = (Received, ?st')"
    using Suc.prems u by (simp add: webhook_completed)
  have ex: "users ?st' uid \<noteq> None" by simp
  from Suc.IH [OF Suc.prems(1,2,3) ex] have
    a: "users (deliver cfg (replicate n (completed ref)) ?st') uid \<noteq> None" and
    b: "0 < n \<longrightarrow> sub_of (deliver cfg (replicate n (completed ref)) ?st') uid = Some ''paid''"
    by simp_all
  show ?case
  proof (cases n)
    case 0
    then show ?thesis by (simp add: step sub_of_def)
  next
    case (Suc m)
    with a b show ?thesis by (simp add: step)
  qed
qed

lemma deliver_append: "deliver cfg (xs @ ys) st = deliver cfg ys (deliver cfg xs st)"
  by (induction xs arbitrary: st) simp_all

lemmas int_defs =
  py_int_def strip_def is_space_def digit_val_def upt_rec in_db_range_def
  py_str_def dec.simps digit_char_def

text \<open>
  C5. Payment events are idempotent and the last one wins: for every user in the
  store, the completed event for the user delivered N times, N at least 1, leaves the
  user paid, and the canceled event after any number of completed events leaves the
  user free. The events are verified ones, delivered to a configured webhook, and they
  name the user as the checkout does, by the decimal text of the id.
\<close>

theorem C5_payment_events_idempotent:
  assumes "stripe cfg" and "STRIPE_WEBHOOK_SECRET cfg \<noteq> []"
    and "in_db_range uid" and "users st uid \<noteq> None"
  shows "(0 < n \<longrightarrow>
            sub_of (deliver cfg (replicate n (completed (py_str uid))) st) uid = Some ''paid'')
       \<and> sub_of (deliver cfg (replicate n (completed (py_str uid)) @ [canceled (py_str uid)]) st) uid
           = Some ''free''"
proof -
  have on: "webhook_on cfg" using assms by (simp add: webhook_on_def)
  have ref: "py_int (py_str uid) = Some uid" by (rule py_int_py_str)
  note d = deliver_completed [OF on ref assms(3,4), of n]
  from d obtain u where
    u: "users (deliver cfg (replicate n (completed (py_str uid))) st) uid = Some u"
    by auto
  have "sub_of (deliver cfg (replicate n (completed (py_str uid)) @ [canceled (py_str uid)]) st) uid
          = Some ''free''"
    by (simp add: deliver_append webhook_canceled [OF on ref assms(3) u] sub_of_def)
  with d show ?thesis by simp
qed

theorem C5_payment_events_idempotent_witness:
  "stripe cfg0 \<and> STRIPE_WEBHOOK_SECRET cfg0 \<noteq> [] \<and> in_db_range 1
   \<and> users st0 1 \<noteq> None \<and> py_str 1 = ''1''
   \<and> sub_of (deliver cfg0 (replicate 3 (completed ''1'')) st0) 1 = Some ''paid''
   \<and> sub_of (deliver cfg0 (replicate 3 (completed ''1'') @ [canceled ''1'']) st0) 1
       = Some ''free''"
proof -
  have a: "stripe cfg0" and b: "STRIPE_WEBHOOK_SECRET cfg0 \<noteq> []"
    by (simp_all add: cfg0_def)
  have c: "in_db_range 1" by (simp add: in_db_range_def)
  have d: "users st0 1 \<noteq> None" by (simp add: st0_def)
  have e: "py_str 1 = ''1''" by (simp add: py_str_def dec.simps digit_char_def)
  from C5_payment_events_idempotent [OF a b c d, of 3] a b c d e show ?thesis by simp
qed

section \<open>Upgrading after a quota denial\<close>

lemma resolve_not_402: "resolve cfg w doc \<noteq> UpgradeRequired402"
  using resolve_decision [of cfg w doc] by auto

lemma quota_denied_read:
  "fst (download_doc cfg w st uid d) = UpgradeRequired402 \<Longrightarrow>
   \<exists>doc u. documents st d = Some doc \<and> users st uid = Some u
     \<and> entitlement cfg u doc d (accessed_docs st uid) = Deny QuotaExceeded"
proof (cases "allowed cfg st uid d")
  case True
  assume a: "fst (download_doc cfg w st uid d) = UpgradeRequired402"
  from allowed_doc [OF True] obtain doc where "documents st d = Some doc" ..
  from download_allowed [OF True this, of w] a resolve_not_402 [of cfg w doc]
  show ?thesis by simp
next
  case False
  assume a: "fst (download_doc cfg w st uid d) = UpgradeRequired402"
  with False show ?thesis
    by (auto simp: allowed_def download_doc_def download_read_def finish_def
          split: option.splits decision.splits deny_reason.splits)
qed

text \<open>
  C6. With the limit at 2, a user who is not an admin, whose ledger is {d1, d2} and who
  was refused d3 with QuotaExceeded: after the completed event for the user the status
  is paid, and a new request for d3 is allowed and leaves the ledger {d1, d2, d3}. The
  event is a verified one, delivered to a configured webhook, and names the user as the
  checkout does.
\<close>

theorem C6_upgrade_after_quota_denial:
  assumes lim: "FREE_DOC_LIMIT cfg = 2"
    and on: "stripe cfg" "STRIPE_WEBHOOK_SECRET cfg \<noteq> []"
    and usr: "users st uid = Some u" "role u \<noteq> ''admin''"
    and rng: "in_db_range uid"
    and led: "accessed_docs st uid = {d1, d2}"
    and denied: "fst (download_doc cfg w st uid d3) = UpgradeRequired402"
  shows "sub_of (snd (billing_webhook cfg st (completed (py_str uid)))) uid = Some ''paid''
       \<and> decision_of (fst (download_doc cfg w'
             (snd (billing_webhook cfg st (completed (py_str uid)))) uid d3)) = Some Allow
       \<and> accessed_docs (snd (download_doc cfg w'
             (snd (billing_webhook cfg st (completed (py_str uid)))) uid d3)) uid = {d1, d2, d3}"
proof -
  let ?st' = "st\<lparr>users := (users st)(uid \<mapsto> u\<lparr>subscription_status := ''paid''\<rparr>)\<rparr>"
  have won: "webhook_on cfg" using on by (simp add: webhook_on_def)
  have ref: "py_int (py_str uid) = Some uid" by (rule py_int_py_str)
  have hook: "snd (billing_webhook cfg st (completed (py_str uid))) = ?st'"
    by (simp add: webhook_completed [OF won ref rng usr(1)])
  from quota_denied_read [OF denied] usr obtain doc where
    doc: "documents st d3 = Some doc" and
    ent: "entitlement cfg u doc d3 (accessed_docs st uid) = Deny QuotaExceeded"
    by auto
  from ent usr(2) have appr: "status doc = ''approved''"
    by (auto simp: entitlement_def split: if_splits)
  have acc: "accessed_docs ?st' uid = {d1, d2}"
    using led by (simp add: accessed_docs_def)
  have al: "allowed cfg ?st' uid d3"
    using doc appr by (simp add: allowed_def entitlement_def)
  have 1: "sub_of ?st' uid = Some ''paid''" by (simp add: sub_of_def)
  have 2: "decision_of (fst (download_doc cfg w' ?st' uid d3)) = Some Allow"
    using al allowed_iff_decision [of cfg ?st' uid d3 w'] by simp
  have 3: "accessed_docs (snd (download_doc cfg w' ?st' uid d3)) uid = {d1, d2, d3}"
    using al acc by (auto simp: download_accessed_docs)
  from 1 2 3 show ?thesis by (simp only: hook)
qed

theorem C6_upgrade_after_quota_denial_witness:
  "FREE_DOC_LIMIT cfg0 = 2 \<and> role alice \<noteq> ''admin'' \<and> in_db_range 1 \<and> py_str 1 = ''1''
   \<and> accessed_docs (st0\<lparr>accesses := ledger [(1, 1), (1, 2)]\<rparr>) 1 = {1, 2}
   \<and> fst (download_doc cfg0 w0 (st0\<lparr>accesses := ledger [(1, 1), (1, 2)]\<rparr>) 1 3)
       = UpgradeRequired402
   \<and> sub_of (snd (billing_webhook cfg0 (st0\<lparr>accesses := ledger [(1, 1), (1, 2)]\<rparr>)
                   (completed ''1''))) 1 = Some ''paid''
   \<and> decision_of (fst (download_doc cfg0 w0
         (snd (billing_webhook cfg0 (st0\<lparr>accesses := ledger [(1, 1), (1, 2)]\<rparr>)
                (completed ''1''))) 1 3)) = Some Allow
   \<and> accessed_docs (snd (download_doc cfg0 w0
         (snd (billing_webhook cfg0 (st0\<lparr>accesses := ledger [(1, 1), (1, 2)]\<rparr>)
                (completed ''1''))) 1 3)) 1 = {1, 2, 3}"
proof -
  let ?st = "st0\<lparr>accesses := ledger [(1, 1), (1, 2)]\<rparr>"
  have lim: "FREE_DOC_LIMIT cfg0 = 2" and on: "stripe cfg0" "STRIPE_WEBHOOK_SECRET cfg0 \<noteq> []"
    by (simp_all add: cfg0_def)
  have usr: "users ?st 1 = Some alice" "role alice \<noteq> ''admin''"
    by (simp_all add: st0_def alice_def)
  have rng: "in_db_range 1" by (simp add: in_db_range_def)
  have led: "accessed_docs ?st 1 = {1, 2}"
    by (simp add: accessed_docs_def ledger_def)
  have denied: "fst (download_doc cfg0 w0 ?st 1 3) = UpgradeRequired402"
    by (simp add: run_defs)
  have str: "py_str 1 = ''1''" by (simp add: py_str_def dec.simps digit_char_def)
  from C6_upgrade_after_quota_denial [OF lim on usr rng led denied, of w0]
    lim usr rng led denied str
  show ?thesis by simp
qed

section \<open>Events the webhook does not act on\<close>

lemma webhook_noop:
  assumes "webhook_on cfg"
    and "(ev_type e \<noteq> ''checkout.session.completed'' \<and> ev_type e \<noteq> ''customer.subscription.deleted'')
         \<or> ev_metadata e = MetadataAbsent \<or> ev_metadata e = Metadata None
         \<or> ev_metadata e = Metadata (Some [])
         \<or> (\<exists>ref n. ev_metadata e = Metadata (Some ref) \<and> length ref \<le> 4300
               \<and> py_int ref = Some n \<and> in_db_range n \<and> users st n = None)"
  shows "billing_webhook cfg st (Some e) = (Received, st)"
  using assms
  by (auto simp: webhook_on_def billing_webhook_def reconcile_def split: option.splits)

lemma webhook_malformed:
  assumes "webhook_on cfg" and "ref \<noteq> []" and "py_int ref = None"
  shows "billing_webhook cfg st (completed ref) = (Unhandled500, st)"
    and "billing_webhook cfg st (canceled ref) = (Unhandled500, st)"
  using assms
  by (simp_all add: webhook_on_def billing_webhook_def reconcile_def completed_def canceled_def)

lemma webhook_null_metadata:
  assumes "webhook_on cfg" and "ev_metadata e = MetadataNull"
    and "ev_type e = ''checkout.session.completed'' \<or> ev_type e = ''customer.subscription.deleted''"
  shows "billing_webhook cfg st (Some e) = (Unhandled500, st)"
  using assms
  by (auto simp: webhook_on_def billing_webhook_def reconcile_def)

lemma webhook_out_of_range:
  assumes "webhook_on cfg" and "py_int ref = Some n" and "\<not> in_db_range n"
  shows "billing_webhook cfg st (completed ref) = (Unhandled500, st)"
    and "billing_webhook cfg st (canceled ref) = (Unhandled500, st)"
  using assms py_int_nonempty [of ref n]
  by (simp_all add: webhook_on_def billing_webhook_def reconcile_def completed_def canceled_def)

text \<open>
  C8. A verified event of another kind, or with no user reference, or with a numeric
  reference to no user, is acknowledged and changes nothing (\<open>webhook_noop\<close>). A
  reference that is not a number does not resolve to a user either, and there the
  handler does not acknowledge: \<open>int\<close> raises at line 652, outside any \<open>try\<close>,
  where \<open>_current_user\<close> (lines 232--235) catches the same conversion. Null metadata
  and a number the store cannot take as a key end the same way
  (\<open>webhook_null_metadata\<close>, \<open>webhook_out_of_range\<close>).
\<close>

theorem C8_malformed_reference_raises:
  "py_int ''abc'' = None \<and> billing_webhook cfg0 st0 (completed ''abc'') = (Unhandled500, st0)"
  by (simp add: int_defs billing_webhook_def reconcile_def completed_def cfg0_def)

theorem C8_malformed_reference_raises_witness:
  "fst (billing_webhook cfg0 st0 (completed ''abc'')) = Unhandled500
   \<and> fst (billing_webhook cfg0 st0 (completed ''abc'')) \<noteq> Received"
  using C8_malformed_reference_raises by simp

section \<open>The quota over runs of the system\<close>

lemma set_status_accesses [simp]: "accesses (snd (set_status t st uid d)) = accesses st"
  by (simp add: set_status_def split: option.splits)

lemma checkout_accesses [simp]: "accesses (snd (start_checkout cfg s st uid)) = accesses st"
  by (simp add: start_checkout_def split: option.splits)

lemma webhook_accesses [simp]: "accesses (snd (billing_webhook cfg st ev)) = accesses st"
  by (simp add: billing_webhook_def reconcile_def split: option.splits metadata.splits)

lemma free_non_admin_not_paid:
  "free_non_admin st uid \<Longrightarrow>
   \<exists>u. users st uid = Some u \<and> role u \<noteq> ''admin'' \<and> subscription_status u \<noteq> ''paid''"
  by (auto simp: free_non_admin_def split: option.splits)

lemma free_download_within_quota:
  assumes "free_non_admin st uid" and "allowed cfg st uid d" and "d \<notin> accessed_docs st uid"
  shows "int (card (accessed_docs st uid)) < FREE_DOC_LIMIT cfg"
proof -
  from free_non_admin_not_paid [OF assms(1)] obtain u where
    u: "users st uid = Some u" "role u \<noteq> ''admin''" "subscription_status u \<noteq> ''paid''"
    by blast
  from assms(2) u assms(3) show ?thesis
    by (auto simp: allowed_def entitlement_def split: option.splits if_splits)
qed

lemma finite_accessed [simp]: "finite (accessed_docs st uid)"
  by (simp add: accessed_docs_def)

lemma step_quota:
  assumes "free_non_admin st uid" and "quota_used st uid \<le> FREE_DOC_LIMIT cfg"
  shows "quota_used (step cfg x st) uid \<le> FREE_DOC_LIMIT cfg"
proof (cases x)
  case (Download w v d)
  show ?thesis
  proof (cases "allowed cfg st v d \<and> v = uid \<and> d \<notin> accessed_docs st uid")
    case True
    with free_download_within_quota [OF assms(1), of cfg d]
    have "int (card (accessed_docs st uid)) < FREE_DOC_LIMIT cfg" by blast
    with True show ?thesis
      by (simp add: Download quota_used_def download_accessed_docs)
  next
    case False
    then have "accessed_docs (snd (download_doc cfg w st v d)) uid = accessed_docs st uid"
      by (auto simp: download_accessed_docs insert_absorb)
    with assms(2) show ?thesis by (simp add: Download quota_used_def)
  qed
next
  case (Checkout s v)
  with assms(2) show ?thesis
    by (simp add: quota_used_def accessed_docs_def)
next
  case (Webhook ev)
  with assms(2) show ?thesis
    by (simp add: quota_used_def accessed_docs_def)
next
  case (Approve v d)
  with assms(2) show ?thesis
    by (simp add: quota_used_def accessed_docs_def approve_doc_def)
next
  case (Reject v d)
  with assms(2) show ?thesis
    by (simp add: quota_used_def accessed_docs_def reject_doc_def)
qed

lemma stays_free_take: "stays_free cfg uid ops st \<Longrightarrow> stays_free cfg uid (take k ops) st"
proof (induction ops arbitrary: st k)
  case Nil
  then show ?case by simp
next
  case (Cons x xs)
  then show ?case by (cases k) simp_all
qed

lemma quota_kept:
  "stays_free cfg uid ops st \<Longrightarrow> quota_used st uid \<le> FREE_DOC_LIMIT cfg \<Longrightarrow>
   quota_used (run cfg ops st) uid \<le> FREE_DOC_LIMIT cfg"
proof (induction ops arbitrary: st)
  case Nil
  then show ?case by simp
next
  case (Cons x xs)
  from Cons.prems have f: "free_non_admin st uid" and s: "stays_free cfg uid xs (step cfg x st)"
    by simp_all
  from step_quota [OF f Cons.prems(2)] have "quota_used (step cfg x st) uid \<le> FREE_DOC_LIMIT cfg" .
  from Cons.IH [OF s this] show ?case by simp
qed

lemmas hook_defs = billing_webhook_def reconcile_def completed_def canceled_def

text \<open>
  C2, as the code has it. The requests are served one after the other, each to its end
  before the next begins (a run is a list of whole requests). A user who is a free
  non-admin user in every state of such a run of downloads, checkouts, payment events,
  approvals and rejections, and who starts with at most \<open>FREE_DOC_LIMIT\<close> distinct
  documents in the ledger, has at most \<open>FREE_DOC_LIMIT\<close> of them in every state of
  the run. Nothing is said of requests that overlap.
\<close>

theorem C2_quota_kept_while_free:
  "stays_free cfg uid ops st \<Longrightarrow> quota_used st uid \<le> FREE_DOC_LIMIT cfg \<Longrightarrow>
   quota_used (run cfg (take k ops) st) uid \<le> FREE_DOC_LIMIT cfg"
  by (rule quota_kept [OF stays_free_take])

theorem C2_quota_kept_while_free_witness:
  "stays_free cfg0 1 [Download w0 1 1, Download w0 1 2, Download w0 1 3] st0
   \<and> quota_used st0 1 \<le> FREE_DOC_LIMIT cfg0
   \<and> quota_used (run cfg0 [Download w0 1 1, Download w0 1 2, Download w0 1 3] st0) 1 = 2
   \<and> quota_used (run cfg0 [Download w0 1 1, Download w0 1 2, Download w0 1 3] st0) 1
       \<le> FREE_DOC_LIMIT cfg0"
proof -
  let ?ops = "[Download w0 1 1, Download w0 1 2, Download w0 1 3]"
  have a: "stays_free cfg0 1 ?ops st0"
    by (simp add: run_defs free_non_admin_def)
  have b: "quota_used st0 1 \<le> FREE_DOC_LIMIT cfg0"
    by (simp add: quota_used_def accessed_docs_def st0_def cfg0_def)
  have c: "quota_used (run cfg0 ?ops st0) 1 = 2"
    by (simp add: run_defs quota_used_def)
  from C2_quota_kept_while_free [OF a b, of 3] a b c show ?thesis by simp
qed


text \<open>
  The invariant does not hold over all runs: paid downloads are recorded in the ledger
  like free ones (line 503), so a user who pays, opens three documents and cancels is a
  free user with three documents against a limit of two.
\<close>

theorem C2_quota_invariant_counterexample:
  "free_non_admin st0 1 \<and> quota_used st0 1 = 0
   \<and> free_non_admin (run cfg0 upgrade_then_cancel st0) 1
   \<and> quota_used (run cfg0 upgrade_then_cancel st0) 1 = 3
   \<and> \<not> quota_used (run cfg0 upgrade_then_cancel st0) 1 \<le> FREE_DOC_LIMIT cfg0"
  by (simp add: upgrade_then_cancel_def run_defs hook_defs int_defs free_non_admin_def quota_used_def)


section \<open>Two requests for the last free slot\<close>

lemma quota_denied:
  "users st uid = Some u \<Longrightarrow> documents st d = Some doc \<Longrightarrow>
   entitlement cfg u doc d (accessed_docs st uid) = Deny QuotaExceeded \<Longrightarrow>
   download_doc cfg w st uid d = (UpgradeRequired402, st)"
  by (simp add: download_doc_def download_read_def finish_def)

text \<open>
  C3, as the code has it. A free non-admin user has \<open>FREE_DOC_LIMIT - 1\<close> distinct
  documents in the ledger and asks for two approved documents, both new. When the two
  requests are served one after the other, the first is allowed, the second is refused
  with QuotaExceeded, and the ledger holds \<open>FREE_DOC_LIMIT\<close> documents.
\<close>

theorem C3_serial_requests:
  assumes free: "free_non_admin st uid"
    and used: "quota_used st uid = FREE_DOC_LIMIT cfg - 1"
    and doca: "documents st da = Some doca" "status doca = ''approved''"
    and docb: "documents st db' = Some docb" "status docb = ''approved''"
    and new: "da \<noteq> db'" "da \<notin> accessed_docs st uid" "db' \<notin> accessed_docs st uid"
  shows "decision_of (fst (serial cfg wa wb st uid da db')) = Some Allow
       \<and> decision_of (fst (snd (serial cfg wa wb st uid da db'))) = Some (Deny QuotaExceeded)
       \<and> quota_used (snd (snd (serial cfg wa wb st uid da db'))) uid = FREE_DOC_LIMIT cfg"
proof -
  from free_non_admin_not_paid [OF free] obtain u where
    u: "users st uid = Some u" "role u \<noteq> ''admin''" "subscription_status u \<noteq> ''paid''"
    by blast
  let ?s1 = "snd (download_doc cfg wa st uid da)"
  have al: "allowed cfg st uid da"
    using u doca used by (simp add: allowed_def entitlement_def quota_used_def)
  then have r1: "decision_of (fst (download_doc cfg wa st uid da)) = Some Allow"
    using allowed_iff_decision [of cfg st uid da wa] by simp
  have acc1: "accessed_docs ?s1 uid = insert da (accessed_docs st uid)"
    using al by (simp add: download_accessed_docs)
  then have card1: "quota_used ?s1 uid = FREE_DOC_LIMIT cfg"
    using new(2) used by (simp add: quota_used_def)
  have ent: "entitlement cfg u docb db' (accessed_docs ?s1 uid) = Deny QuotaExceeded"
    using u docb new card1 by (simp add: entitlement_def acc1 quota_used_def)
  have second: "download_doc cfg wb ?s1 uid db' = (UpgradeRequired402, ?s1)"
    by (rule quota_denied [OF _ _ ent]) (simp_all add: u docb)
  show ?thesis
    by (simp add: serial_def Let_def second r1 card1)
qed

theorem C3_serial_requests_witness:
  "free_non_admin one_slot_left 1 \<and> quota_used one_slot_left 1 = FREE_DOC_LIMIT cfg0 - 1
   \<and> fst (serial cfg0 w0 w0 one_slot_left 1 2 3) = SendFile ''b.pdf''
   \<and> fst (snd (serial cfg0 w0 w0 one_slot_left 1 2 3)) = UpgradeRequired402
   \<and> quota_used (snd (snd (serial cfg0 w0 w0 one_slot_left 1 2 3))) 1 = 2"
proof -
  have free: "free_non_admin one_slot_left 1"
    by (simp add: one_slot_left_def free_non_admin_def st0_def alice_def)
  have used: "quota_used one_slot_left 1 = FREE_DOC_LIMIT cfg0 - 1"
    by (simp add: one_slot_left_def quota_used_def accessed_docs_def ledger_def cfg0_def)
  have doca: "documents one_slot_left 2 = Some (doc0 ''approved'' ''b.pdf'')"
             "status (doc0 ''approved'' ''b.pdf'') = ''approved''"
    by (simp_all add: one_slot_left_def st0_def doc0_def)
  have docb: "documents one_slot_left 3 = Some (doc0 ''approved'' ''c.pdf'')"
             "status (doc0 ''approved'' ''c.pdf'') = ''approved''"
    by (simp_all add: one_slot_left_def st0_def doc0_def)
  have new: "(2::int) \<noteq> 3" "2 \<notin> accessed_docs one_slot_left 1"
            "3 \<notin> accessed_docs one_slot_left 1"
    by (simp_all add: one_slot_left_def accessed_docs_def ledger_def)
  have resp: "fst (serial cfg0 w0 w0 one_slot_left 1 2 3) = SendFile ''b.pdf''"
             "fst (snd (serial cfg0 w0 w0 one_slot_left 1 2 3)) = UpgradeRequired402"
    by (simp_all add: serial_def one_slot_left_def run_defs Let_def)
  from C3_serial_requests [OF free used doca docb new, of w0 w0] free used resp
  show ?thesis by (simp add: cfg0_def)
qed


text \<open>
  Nothing in the handler keeps the count of line 498 and the insert of lines 504--505
  together: when both requests read the ledger before either commits, both pass the
  check of line 500, both rows are committed and the ledger holds one document more
  than the limit.
\<close>

theorem C3_concurrent_requests_counterexample:
  "free_non_admin one_slot_left 1 \<and> quota_used one_slot_left 1 = FREE_DOC_LIMIT cfg0 - 1
   \<and> decision_of (fst (overlapped cfg0 w0 w0 one_slot_left 1 2 3)) = Some Allow
   \<and> decision_of (fst (snd (overlapped cfg0 w0 w0 one_slot_left 1 2 3))) = Some Allow
   \<and> quota_used (snd (snd (overlapped cfg0 w0 w0 one_slot_left 1 2 3))) 1 = 3
   \<and> \<not> quota_used (snd (snd (overlapped cfg0 w0 w0 one_slot_left 1 2 3))) 1 \<le> FREE_DOC_LIMIT cfg0"
  by (simp add: overlapped_def one_slot_left_def run_defs Let_def free_non_admin_def quota_used_def)

end
